theory Spec2Isabelle
  imports Main
begin

section \<open>The checkout pool of gitproc (src/api.ts)\<close>

text \<open>
  The pool keeps one SQLite table, \<^verbatim>\<open>checkout_metadata\<close>, with the columns
  \<^verbatim>\<open>checkout TEXT PRIMARY KEY, repo TEXT, pid INTEGER, timestamp TEXT, status TEXT\<close>.
  The specification calls a checkout a slot, \<^verbatim>\<open>checkout\<close> the slot name
  (\<^verbatim>\<open>slot-<n>\<close> for the code's \<^verbatim>\<open>checkout-<n>\<close>), \<^verbatim>\<open>repo\<close> the repository key,
  \<^verbatim>\<open>pid\<close> the owner and \<^verbatim>\<open>timestamp\<close> acquired\_at.

  A table is modelled by the list of its rows in rowid order: a full scan
  (\<^verbatim>\<open>SELECT ... LIMIT 1\<close>) meets the rows in that order, \<^verbatim>\<open>INSERT\<close> appends,
  \<^verbatim>\<open>UPDATE\<close> and \<^verbatim>\<open>DELETE\<close> keep the order of the rows they leave.
  Every function takes the table and returns the new one together with its
  result; a thrown \<^verbatim>\<open>Error\<close> is the \<open>Inl\<close> of the result.
  JavaScript numbers are modelled by \<open>int\<close>, which is exact below \<open>2^53\<close>.
  The model starts where \<^verbatim>\<open>ensurePoolDirAndDb\<close> has returned the database.
\<close>

subsection \<open>Data\<close>

record CheckoutMetadata =
  checkout :: string
  repo :: string
  pid :: "int option"
  timestamp :: "string option"
  status :: string

type_synonym store = "CheckoutMetadata list"

record AcquireResult =
  id_res :: string
  directory :: string

text \<open>
  What an invocation reads from its surroundings: the home directory, the
  process id, the clock, the output of \<^verbatim>\<open>git remote get-url origin\<close> (\<open>None\<close>
  when the command fails), and whether the external git and shell commands
  succeed.
\<close>

record env =
  HOME :: string
  process_pid :: int
  now_iso :: string
  origin_stdout :: "string option"
  provision_ok :: bool
  worktree_remove_ok :: bool
  rm_rf_ok :: bool

text \<open>
  One constructor for each place where the source throws: the zod schemas, the
  failing \<^verbatim>\<open>git remote\<close> call, the five \<^verbatim>\<open>throw new Error\<close>, the primary key
  violated by \<^verbatim>\<open>INSERT\<close>, and the failing \<^verbatim>\<open>rm -rf\<close> of \<^verbatim>\<open>removeCheckout\<close>.
\<close>

datatype error =
    ValidationError
  | GitRemoteFailed
  | RepoUnresolvable
  | CapacityExceeded
  | ConstraintViolation
  | SlotProvisioningFailed
  | NotFound
  | NotLocked
  | TeardownFailed

definition POOL_DIR :: "env \<Rightarrow> string" where
  "POOL_DIR e = HOME e @ ''/.gitproc_pool''"

subsection \<open>The JavaScript string functions the allocator uses\<close>

text \<open>
  Strings are byte strings; the white space that \<^verbatim>\<open>trim\<close> and \<^verbatim>\<open>parseInt\<close>
  skip is the ASCII white space.
\<close>

definition is_ws :: "char \<Rightarrow> bool" where
  "is_ws c = (c \<in> set [CHR '' '', CHR 0x09, CHR 0x0A, CHR 0x0B, CHR 0x0C, CHR 0x0D])"

definition js_trim :: "string \<Rightarrow> string" where
  "js_trim s = rev (dropWhile is_ws (rev (dropWhile is_ws s)))"

text \<open>\<^verbatim>\<open>s.replace(pat, '')\<close> with a string pattern: the first occurrence goes.\<close>

fun replace_first :: "string \<Rightarrow> string \<Rightarrow> string" where
  "replace_first pat [] = []"
| "replace_first pat (c # cs) =
     (if take (length pat) (c # cs) = pat then drop (length pat) (c # cs)
      else c # replace_first pat cs)"

definition digit_val :: "char \<Rightarrow> nat option" where
  "digit_val c =
     (let k = (of_char c :: nat) in
      if 48 \<le> k \<and> k \<le> 57 then Some (k - 48)
      else if 97 \<le> k \<and> k \<le> 122 then Some (k - 87)
      else if 65 \<le> k \<and> k \<le> 90 then Some (k - 55)
      else None)"

definition radix_digit :: "nat \<Rightarrow> char \<Rightarrow> nat option" where
  "radix_digit R c =
     (case digit_val c of
        None \<Rightarrow> None
      | Some d \<Rightarrow> if d < R then Some d else None)"

definition digits_value :: "nat \<Rightarrow> string \<Rightarrow> nat" where
  "digits_value R z =
     foldl (\<lambda>a c. R * a + (case radix_digit R c of None \<Rightarrow> 0 | Some d \<Rightarrow> d)) 0 z"

text \<open>
  \<^verbatim>\<open>parseInt(str)\<close> with no radix: leading white space is skipped, a sign
  is read, \<^verbatim>\<open>0x\<close> switches to radix 16, the longest run of digits is read and
  what follows is ignored; \<open>None\<close> is \<^verbatim>\<open>NaN\<close>.
\<close>

definition parseInt :: "string \<Rightarrow> int option" where
  "parseInt str =
     (let s = dropWhile is_ws str;
          neg = (take 1 s = ''-'');
          s1 = (if take 1 s = ''+'' \<or> take 1 s = ''-'' then drop 1 s else s);
          hex = (take 2 s1 = ''0x'' \<or> take 2 s1 = ''0X'');
          R = (if hex then 16 else 10);
          s2 = (if hex then drop 2 s1 else s1);
          z = takeWhile (\<lambda>c. radix_digit R c \<noteq> None) s2
      in if z = [] then None
         else Some (if neg then - int (digits_value R z) else int (digits_value R z)))"

text \<open>The decimal text of a number, as a template literal prints it.\<close>

fun show_nat :: "nat \<Rightarrow> string" where
  "show_nat n =
     (if n < 10 then [char_of (48 + n)]
      else show_nat (n div 10) @ [char_of (48 + n mod 10)])"

declare show_nat.simps [simp del]

definition show_int :: "int \<Rightarrow> string" where
  "show_int i = (if i < 0 then CHR ''-'' # show_nat (nat (- i)) else show_nat (nat i))"

subsection \<open>The statements run against the table\<close>

definition db_insert :: "CheckoutMetadata \<Rightarrow> store \<Rightarrow> error + store" where
  "db_insert row s =
     (if checkout row \<in> set (map checkout s) then Inl ConstraintViolation
      else Inr (s @ [row]))"

definition db_lock :: "int \<Rightarrow> string \<Rightarrow> string \<Rightarrow> store \<Rightarrow> store" where
  "db_lock p t c s =
     map (\<lambda>r. if checkout r = c
               then r\<lparr>pid := Some p, timestamp := Some t, status := ''locked''\<rparr>
               else r) s"

definition db_unlock :: "string \<Rightarrow> store \<Rightarrow> store" where
  "db_unlock c s =
     map (\<lambda>r. if checkout r = c
               then r\<lparr>pid := None, timestamp := None, status := ''free''\<rparr>
               else r) s"

definition db_delete :: "string \<Rightarrow> store \<Rightarrow> store" where
  "db_delete c s = filter (\<lambda>r. checkout r \<noteq> c) s"

definition count_repo :: "string \<Rightarrow> store \<Rightarrow> nat" where
  "count_repo rp s = length (filter (\<lambda>r. repo r = rp) s)"

definition select_free :: "string \<Rightarrow> store \<Rightarrow> CheckoutMetadata option" where
  "select_free rp s = find (\<lambda>r. repo r = rp \<and> status r = ''free'') s"

definition select_by_name :: "string \<Rightarrow> store \<Rightarrow> CheckoutMetadata option" where
  "select_by_name c s = find (\<lambda>r. checkout r = c) s"

subsection \<open>listCheckouts\<close>

definition listCheckouts :: "store \<Rightarrow> CheckoutMetadata list" where
  "listCheckouts s =
     map (\<lambda>row. \<lparr>checkout = checkout row, repo = repo row, pid = pid row,
                 timestamp = timestamp row, status = status row\<rparr>) s"

subsection \<open>acquireCheckout\<close>

text \<open>
  Lines 94 to 101: an argument that is given must not be empty; with no
  argument the repository is the trimmed output of \<^verbatim>\<open>git remote get-url origin\<close>.
\<close>

definition resolve_repo :: "env \<Rightarrow> string option \<Rightarrow> error + string" where
  "resolve_repo e repoArg =
     (case repoArg of
        Some a \<Rightarrow> if a = [] then Inl ValidationError else Inr a
      | None \<Rightarrow>
          (case origin_stdout e of
             None \<Rightarrow> Inl GitRemoteFailed
           | Some out \<Rightarrow>
               if js_trim out = [] then Inl RepoUnresolvable else Inr (js_trim out)))"

text \<open>Lines 107 to 113: the limit counts the repository's rows of any status.\<close>

definition capacity_exceeded :: "int option \<Rightarrow> string \<Rightarrow> store \<Rightarrow> bool" where
  "capacity_exceeded maxCheckouts rp s =
     (case maxCheckouts of
        None \<Rightarrow> False
      | Some m \<Rightarrow> m \<noteq> 0 \<and> m > 0 \<and> int (count_repo rp s) \<ge> m)"

text \<open>Lines 124 to 127: the numbers read from the names, and the next one.\<close>

definition name_nums :: "store \<Rightarrow> int list" where
  "name_nums s = List.map_filter (\<lambda>r. parseInt (replace_first ''checkout-'' (checkout r))) s"

definition nextNum :: "store \<Rightarrow> int" where
  "nextNum s = (case name_nums s of [] \<Rightarrow> 1 | n # ns \<Rightarrow> fold max ns n + 1)"

text \<open>
  Lines 115 to 140, the transaction: a free row of the repository with a
  non-empty name is locked; otherwise a row is inserted, locked already.
  The result is the committed table with \<^verbatim>\<open>checkout\<close>, \<^verbatim>\<open>isNew\<close> and
  \<^verbatim>\<open>directory\<close>; an exception rolls back and is thrown again.
\<close>

definition acquire_txn :: "env \<Rightarrow> string \<Rightarrow> store \<Rightarrow> error + (store \<times> string \<times> bool \<times> string)" where
  "acquire_txn e rp s =
     (case (case select_free rp s of
              None \<Rightarrow> None
            | Some row \<Rightarrow> if checkout row \<noteq> [] then Some (checkout row) else None) of
        Some c \<Rightarrow>
          Inr (db_lock (process_pid e) (now_iso e) c s, c, False, POOL_DIR e @ ''/'' @ c)
      | None \<Rightarrow>
          (let c = ''checkout-'' @ show_int (nextNum s) in
           case db_insert \<lparr>checkout = c, repo = rp, pid = Some (process_pid e),
                           timestamp = Some (now_iso e), status = ''locked''\<rparr> s of
             Inl err \<Rightarrow> Inl err
           | Inr s' \<Rightarrow> Inr (s', c, True, POOL_DIR e @ ''/'' @ c)))"

text \<open>
  Lines 142 to 157: a new checkout gets its shared repository and its worktree;
  when that fails its row is deleted and the failure is thrown.
\<close>

definition acquire_finish :: "env \<Rightarrow> store \<times> string \<times> bool \<times> string \<Rightarrow> (error + AcquireResult) \<times> store" where
  "acquire_finish e t =
     (case t of (s1, c, isNew, dir) \<Rightarrow>
        if isNew \<and> \<not> provision_ok e then (Inl SlotProvisioningFailed, db_delete c s1)
        else (Inr \<lparr>id_res = c, directory = dir\<rparr>, s1))"

definition acquireCheckout :: "env \<Rightarrow> string option \<Rightarrow> int option \<Rightarrow> store \<Rightarrow> (error + AcquireResult) \<times> store" where
  "acquireCheckout e repoArg maxCheckouts s =
     (case resolve_repo e repoArg of
        Inl err \<Rightarrow> (Inl err, s)
      | Inr rp \<Rightarrow>
          if capacity_exceeded maxCheckouts rp s then (Inl CapacityExceeded, s)
          else (case acquire_txn e rp s of
                  Inl err \<Rightarrow> (Inl err, s)
                | Inr t \<Rightarrow> acquire_finish e t))"

subsection \<open>releaseCheckout and removeCheckout\<close>

definition releaseCheckout :: "string \<Rightarrow> store \<Rightarrow> (error + unit) \<times> store" where
  "releaseCheckout c s =
     (if c = [] then (Inl ValidationError, s)
      else case select_by_name c s of
             None \<Rightarrow> (Inl NotFound, s)
           | Some row \<Rightarrow>
               if status row \<noteq> ''locked'' then (Inl NotLocked, s)
               else (Inr (), db_unlock c s))"

text \<open>
  The worktree is removed by git or, when that fails, by \<^verbatim>\<open>rm -rf\<close>; when
  that fails too the exception leaves the function before the \<^verbatim>\<open>DELETE\<close>.
\<close>

definition removeCheckout :: "env \<Rightarrow> string \<Rightarrow> store \<Rightarrow> (error + unit) \<times> store" where
  "removeCheckout e c s =
     (if c = [] then (Inl ValidationError, s)
      else case select_by_name c s of
             None \<Rightarrow> (Inl NotFound, s)
           | Some row \<Rightarrow>
               if \<not> worktree_remove_ok e \<and> \<not> rm_rf_ok e then (Inl TeardownFailed, s)
               else (Inr (), db_delete c s))"

subsection \<open>Sequences of operations\<close>

datatype op =
    Acquire env "string option" "int option"
  | Release string
  | Remove env string

fun exec_op :: "op \<Rightarrow> store \<Rightarrow> store" where
  "exec_op (Acquire e a m) s = snd (acquireCheckout e a m s)"
| "exec_op (Release c) s = snd (releaseCheckout c s)"
| "exec_op (Remove e c) s = snd (removeCheckout e c s)"

definition exec :: "op list \<Rightarrow> store \<Rightarrow> store" where
  "exec ops s = fold exec_op ops s"

text \<open>
  Beside the table, the names that \<^verbatim>\<open>acquireCheckout\<close> has returned and
  that no successful \<^verbatim>\<open>releaseCheckout\<close> has given back since.
\<close>

fun held_step :: "op \<Rightarrow> store \<times> string set \<Rightarrow> store \<times> string set" where
  "held_step (Acquire e a m) (s, held) =
     (case acquireCheckout e a m s of
        (Inr res, s') \<Rightarrow> (s', insert (id_res res) held)
      | (Inl err, s') \<Rightarrow> (s', held))"
| "held_step (Release c) (s, held) =
     (case releaseCheckout c s of
        (Inr u, s') \<Rightarrow> (s', held - {c})
      | (Inl err, s') \<Rightarrow> (s', held))"
| "held_step (Remove e c) (s, held) = (snd (removeCheckout e c s), held)"

definition held_run :: "op list \<Rightarrow> store \<times> string set" where
  "held_run ops = fold held_step ops ([], {})"

fun is_remove :: "op \<Rightarrow> bool" where
  "is_remove (Remove e c) = True"
| "is_remove (Acquire e a m) = False"
| "is_remove (Release c) = False"

subsection \<open>The notions of the specification\<close>

definition names :: "store \<Rightarrow> string set" where
  "names s = set (map checkout s)"

definition locked_names :: "store \<Rightarrow> string set" where
  "locked_names s = set (map checkout (filter (\<lambda>r. status r = ''locked'') s))"

text \<open>The primary key: at most one row for a name.\<close>

definition pk_unique :: "store \<Rightarrow> bool" where
  "pk_unique s = distinct (map checkout s)"

text \<open>
  A slot name is \<^verbatim>\<open>checkout-\<close> followed by decimal digits, at least one; its
  numeric suffix is the number the digits denote.
\<close>

definition is_dec_digit :: "char \<Rightarrow> bool" where
  "is_dec_digit c = (48 \<le> (of_char c :: nat) \<and> (of_char c :: nat) \<le> 57)"

definition dec_value :: "string \<Rightarrow> nat" where
  "dec_value ds = foldl (\<lambda>a c. 10 * a + (of_char c - 48)) 0 ds"

definition is_slot_name :: "string \<Rightarrow> bool" where
  "is_slot_name n =
     (take 9 n = ''checkout-'' \<and> drop 9 n \<noteq> [] \<and> list_all is_dec_digit (drop 9 n))"

definition slot_number :: "string \<Rightarrow> nat" where
  "slot_number n = dec_value (drop 9 n)"

definition names_ok :: "store \<Rightarrow> bool" where
  "names_ok s = list_all (\<lambda>r. is_slot_name (checkout r)) s"

text \<open>One more than the greatest numeric suffix in the table, 1 for the empty table.\<close>

definition next_slot_number :: "store \<Rightarrow> nat" where
  "next_slot_number s =
     (if s = [] then 1 else Max (set (map (\<lambda>r. slot_number (checkout r)) s)) + 1)"

text \<open>The invariant of a row, and of the table, as section 3 of the specification has it.\<close>

definition row_inv :: "CheckoutMetadata \<Rightarrow> bool" where
  "row_inv r =
     ((status r = ''locked'' \<longrightarrow> pid r \<noteq> None \<and> timestamp r \<noteq> None) \<and>
      (status r = ''free'' \<longrightarrow> pid r = None \<and> timestamp r = None))"

definition store_inv :: "store \<Rightarrow> bool" where
  "store_inv s = (pk_unique s \<and> list_all row_inv s)"

text \<open>A name that is in both tables has the same repository in both.\<close>

definition repo_kept :: "store \<Rightarrow> store \<Rightarrow> bool" where
  "repo_kept s s' =
     list_all (\<lambda>r'. list_all (\<lambda>r. checkout r = checkout r' \<longrightarrow> repo r = repo r') s) s'"

subsection \<open>Example values\<close>

definition ex_env :: env where
  "ex_env = \<lparr>HOME = ''/home/u'', process_pid = 4242, now_iso = ''2025-01-01T00:00:00.000Z'',
             origin_stdout = None, provision_ok = True, worktree_remove_ok = True,
             rm_rf_ok = True\<rparr>"

definition ex_env_fail :: env where
  "ex_env_fail = ex_env\<lparr>provision_ok := False\<rparr>"

definition ex_locked :: "string \<Rightarrow> string \<Rightarrow> CheckoutMetadata" where
  "ex_locked c rp = \<lparr>checkout = c, repo = rp, pid = Some 4242,
                     timestamp = Some ''2025-01-01T00:00:00.000Z'', status = ''locked''\<rparr>"

definition ex_free :: "string \<Rightarrow> string \<Rightarrow> CheckoutMetadata" where
  "ex_free c rp = \<lparr>checkout = c, repo = rp, pid = None, timestamp = None, status = ''free''\<rparr>"

definition ex_ops :: "op list" where
  "ex_ops = [Acquire ex_env (Some ''repo'') None, Acquire ex_env (Some ''repo'') None,
             Release ''checkout-1'']"

section \<open>Reading and printing numbers\<close>

lemma replace_first_prefix: "pat \<noteq> [] \<Longrightarrow> replace_first pat (pat @ t) = t"
  by (cases pat) auto

lemma digit_val_char_of: "d < 10 \<Longrightarrow> digit_val (char_of (48 + d)) = Some d"
  by (simp add: digit_val_def Let_def)

lemma radix_digit_char_of: "d < 10 \<Longrightarrow> radix_digit 10 (char_of (48 + d)) = Some d"
  by (simp add: radix_digit_def digit_val_char_of)

lemma show_nat_nonempty: "show_nat n \<noteq> []"
  by (subst show_nat.simps) simp

lemma show_nat_digits: "c \<in> set (show_nat n) \<Longrightarrow> \<exists>d::nat. d < 10 \<and> c = char_of (48 + d)"
proof (induction n rule: show_nat.induct)
  case (1 n)
  show ?case
  proof (cases "n < 10")
    case True
    with "1.prems" show ?thesis by (subst (asm) show_nat.simps) auto
  next
    case False
    from "1.prems" have "c \<in> set (show_nat (n div 10)) \<or> c = char_of (48 + n mod 10)"
      using False by (subst (asm) show_nat.simps) auto
    then show ?thesis
    proof
      assume "c \<in> set (show_nat (n div 10))"
      with "1.IH" False show ?thesis by simp
    next
      assume "c = char_of (48 + n mod 10)"
      moreover have "n mod 10 < 10" by simp
      ultimately show ?thesis by blast
    qed
  qed
qed

lemma digits_value_snoc:
  "digits_value R (z @ [c]) = R * digits_value R z + (case radix_digit R c of None \<Rightarrow> 0 | Some d \<Rightarrow> d)"
  by (simp add: digits_value_def)

lemma digits_value_show_nat: "digits_value 10 (show_nat n) = n"
proof (induction n rule: show_nat.induct)
  case (1 n)
  show ?case
  proof (cases "n < 10")
    case True
    then show ?thesis
      by (subst show_nat.simps) (simp add: digits_value_def radix_digit_char_of)
  next
    case False
    have m: "n mod 10 < 10" by simp
    from False "1.IH" have ih: "digits_value 10 (show_nat (n div 10)) = n div 10" by simp
    show ?thesis
      using False by (subst show_nat.simps) (simp add: digits_value_snoc ih radix_digit_char_of [OF m])
  qed
qed


lemma dec_digit_radix: "is_dec_digit c \<Longrightarrow> radix_digit 10 c = Some (of_char c - 48)"
  by (auto simp: is_dec_digit_def radix_digit_def digit_val_def Let_def)

lemma dec_digit_not_ws: "is_dec_digit c \<Longrightarrow> \<not> is_ws c"
  by (auto simp: is_dec_digit_def is_ws_def)

lemma dec_digit_not_sign: "is_dec_digit c \<Longrightarrow> c \<noteq> CHR ''-'' \<and> c \<noteq> CHR ''+'' \<and> c \<noteq> CHR ''x'' \<and> c \<noteq> CHR ''X''"
  by (auto simp: is_dec_digit_def)

lemma digits_value_dec: "list_all is_dec_digit ds \<Longrightarrow> digits_value 10 ds = dec_value ds"
proof (induction ds rule: rev_induct)
  case Nil
  show ?case by (simp add: digits_value_def dec_value_def)
next
  case (snoc c ds)
  then have "is_dec_digit c" and "digits_value 10 ds = dec_value ds" by simp_all
  then show ?case
    by (simp add: digits_value_def dec_value_def dec_digit_radix)
qed

lemma parse_digits:
  assumes "list_all is_dec_digit ds" and "ds \<noteq> []"
  shows "parseInt ds = Some (int (dec_value ds))"
    and "parseInt (CHR ''-'' # ds) = Some (- int (dec_value ds))"
proof -
  from assms obtain d ds' where ds: "ds = d # ds'" by (cases ds) auto
  with assms have d: "is_dec_digit d" and ds': "list_all is_dec_digit ds'" by simp_all
  have nohex: "take 2 ds \<noteq> ''0x'' \<and> take 2 ds \<noteq> ''0X''"
  proof (cases ds')
    case Nil
    with ds show ?thesis by simp
  next
    case (Cons x xs)
    with ds' have "is_dec_digit x" by simp
    with ds Cons show ?thesis using dec_digit_not_sign [of x] by auto
  qed
  have tw: "takeWhile (\<lambda>c. \<exists>y. radix_digit 10 c = Some y) ds = ds"
    using assms(1) by (auto simp: takeWhile_eq_all_conv list_all_iff dec_digit_radix)
  have dw: "dropWhile is_ws ds = ds"
    using ds d by (simp add: dec_digit_not_ws)
  have sg: "take (Suc 0) ds \<noteq> ''-''" "take (Suc 0) ds \<noteq> ''+''"
    using ds dec_digit_not_sign [OF d] by simp_all
  have nx: "take 2 ds \<noteq> ''0x''" "take 2 ds \<noteq> ''0X''"
    using nohex by simp_all
  show "parseInt ds = Some (int (dec_value ds))"
    by (simp add: parseInt_def Let_def tw dw sg nx assms digits_value_dec)
  have mws: "\<not> is_ws CHR ''-''" by (simp add: is_ws_def)
  show "parseInt (CHR ''-'' # ds) = Some (- int (dec_value ds))"
    by (simp add: parseInt_def Let_def mws tw nx assms digits_value_dec)
qed

lemma show_nat_all_dec: "list_all is_dec_digit (show_nat n)"
proof -
  have "is_dec_digit c" if "c \<in> set (show_nat n)" for c
  proof -
    from show_nat_digits [OF that] obtain d :: nat where "d < 10" "c = char_of (48 + d)" by blast
    then show ?thesis by (simp add: is_dec_digit_def)
  qed
  then show ?thesis by (simp add: list_all_iff)
qed

lemma dec_value_show_nat: "dec_value (show_nat n) = n"
  using digits_value_dec [OF show_nat_all_dec, of n] digits_value_show_nat [of n] by simp

lemma parseInt_show_int: "parseInt (show_int i) = Some i"
proof (cases "i < 0")
  case True
  then show ?thesis
    using parse_digits(2) [OF show_nat_all_dec show_nat_nonempty, of "nat (- i)"]
    by (simp add: show_int_def dec_value_show_nat)
next
  case False
  then show ?thesis
    using parse_digits(1) [OF show_nat_all_dec show_nat_nonempty, of "nat i"]
    by (simp add: show_int_def dec_value_show_nat)
qed

lemma parse_new_name: "parseInt (replace_first ''checkout-'' (''checkout-'' @ show_int i)) = Some i"
proof -
  have "replace_first ''checkout-'' (''checkout-'' @ show_int i) = show_int i"
    by (rule replace_first_prefix) simp
  then show ?thesis by (simp only: parseInt_show_int)
qed

lemma parse_slot_name:
  assumes "is_slot_name n"
  shows "parseInt (replace_first ''checkout-'' n) = Some (int (slot_number n))"
proof -
  from assms have n: "n = ''checkout-'' @ drop 9 n"
    by (metis append_take_drop_id is_slot_name_def)
  have "replace_first ''checkout-'' (''checkout-'' @ drop 9 n) = drop 9 n"
    by (rule replace_first_prefix) simp
  with n have "replace_first ''checkout-'' n = drop 9 n" by simp
  with assms show ?thesis
    by (simp add: is_slot_name_def slot_number_def parse_digits(1))
qed

section \<open>The statements and the names\<close>

lemma checkout_db_lock: "map checkout (db_lock p t c s) = map checkout s"
  by (induction s) (simp_all add: db_lock_def)

lemma repo_db_lock: "map repo (db_lock p t c s) = map repo s"
  by (induction s) (simp_all add: db_lock_def)

lemma checkout_db_unlock: "map checkout (db_unlock c s) = map checkout s"
  by (induction s) (simp_all add: db_unlock_def)

lemma repo_db_unlock: "map repo (db_unlock c s) = map repo s"
  by (induction s) (simp_all add: db_unlock_def)

lemma db_delete_absent: "c \<notin> set (map checkout s) \<Longrightarrow> db_delete c s = s"
  by (induction s) (auto simp: db_delete_def)

lemma db_delete_appended:
  "c \<notin> set (map checkout s) \<Longrightarrow> checkout row = c \<Longrightarrow> db_delete c (s @ [row]) = s"
  using db_delete_absent [of c s] by (simp add: db_delete_def)

lemma names_db_delete: "set (map checkout (db_delete c s)) = set (map checkout s) - {c}"
  by (auto simp: db_delete_def)

lemma set_map_filter: "set (List.map_filter f xs) = {y. \<exists>x\<in>set xs. f x = Some y}"
  by (induction xs) (auto split: option.splits)

lemma fold_max_ge: "x \<in> set (n # ns) \<Longrightarrow> x \<le> fold max ns (n::int)"
proof -
  assume "x \<in> set (n # ns)"
  then have "x \<le> Max (set (n # ns))" by (intro Max_ge) simp_all
  then show ?thesis by (simp only: Max.set_eq_fold)
qed

lemma nextNum_greater:
  assumes "x \<in> set (name_nums s)"
  shows "x < nextNum s"
proof (cases "name_nums s")
  case Nil
  with assms show ?thesis by simp
next
  case (Cons n ns)
  with assms have "x \<le> fold max ns n" using fold_max_ge [of x n ns] by simp
  with Cons show ?thesis by (simp add: nextNum_def)
qed

lemma new_name_fresh: "''checkout-'' @ show_int (nextNum s) \<notin> set (map checkout s)"
proof
  assume "''checkout-'' @ show_int (nextNum s) \<in> set (map checkout s)"
  then obtain r where r: "r \<in> set s" "checkout r = ''checkout-'' @ show_int (nextNum s)"
    by auto
  then have "parseInt (replace_first ''checkout-'' (checkout r)) = Some (nextNum s)"
    by (simp only: parse_new_name)
  with r(1) have "nextNum s \<in> set (name_nums s)"
    unfolding name_nums_def set_map_filter by blast
  then have "nextNum s < nextNum s" by (rule nextNum_greater)
  then show False by simp
qed

section \<open>The transaction\<close>

lemma acquire_txn_reuse:
  assumes "select_free rp s = Some row" and "checkout row \<noteq> []"
  shows "acquire_txn e rp s =
           Inr (db_lock (process_pid e) (now_iso e) (checkout row) s, checkout row, False,
                POOL_DIR e @ ''/'' @ checkout row)"
  using assms by (simp add: acquire_txn_def)

lemma acquire_txn_new:
  assumes "select_free rp s = None \<or> (\<exists>row. select_free rp s = Some row \<and> checkout row = [])"
    and "c = ''checkout-'' @ show_int (nextNum s)"
  shows "acquire_txn e rp s =
           Inr (s @ [\<lparr>checkout = c, repo = rp, pid = Some (process_pid e),
                       timestamp = Some (now_iso e), status = ''locked''\<rparr>], c, True,
                POOL_DIR e @ ''/'' @ c)"
proof -
  have "c \<notin> set (map checkout s)"
    using new_name_fresh [of s] assms(2) by simp
  then show ?thesis
    using assms by (auto simp: acquire_txn_def db_insert_def Let_def)
qed

lemma acquire_txn_cases:
  obtains (reuse) row where "select_free rp s = Some row" "checkout row \<noteq> []"
      "acquire_txn e rp s =
           Inr (db_lock (process_pid e) (now_iso e) (checkout row) s, checkout row, False,
                POOL_DIR e @ ''/'' @ checkout row)"
  | (new) c where "c = ''checkout-'' @ show_int (nextNum s)" "c \<notin> set (map checkout s)"
      "select_free rp s = None \<or> (\<exists>row. select_free rp s = Some row \<and> checkout row = [])"
      "acquire_txn e rp s =
           Inr (s @ [\<lparr>checkout = c, repo = rp, pid = Some (process_pid e),
                       timestamp = Some (now_iso e), status = ''locked''\<rparr>], c, True,
                POOL_DIR e @ ''/'' @ c)"
proof (cases "\<exists>row. select_free rp s = Some row \<and> checkout row \<noteq> []")
  case True
  then obtain row where "select_free rp s = Some row" "checkout row \<noteq> []" by blast
  then show ?thesis using reuse acquire_txn_reuse by blast
next
  case False
  then have n: "select_free rp s = None \<or> (\<exists>row. select_free rp s = Some row \<and> checkout row = [])"
    by (cases "select_free rp s") auto
  show ?thesis
    using new [OF refl new_name_fresh n acquire_txn_new [OF n refl]] .
qed


lemma acquireCheckout_cases:
  obtains (failed) err where "acquireCheckout e repoArg m s = (Inl err, s)"
  | (reuse) rp row where "resolve_repo e repoArg = Inr rp" "\<not> capacity_exceeded m rp s"
      "select_free rp s = Some row" "checkout row \<noteq> []"
      "acquireCheckout e repoArg m s =
         (Inr \<lparr>id_res = checkout row, directory = POOL_DIR e @ ''/'' @ checkout row\<rparr>,
          db_lock (process_pid e) (now_iso e) (checkout row) s)"
  | (new) rp c where "resolve_repo e repoArg = Inr rp" "\<not> capacity_exceeded m rp s"
      "c = ''checkout-'' @ show_int (nextNum s)" "c \<notin> set (map checkout s)"
      "select_free rp s = None \<or> (\<exists>row. select_free rp s = Some row \<and> checkout row = [])"
      "provision_ok e"
      "acquireCheckout e repoArg m s =
         (Inr \<lparr>id_res = c, directory = POOL_DIR e @ ''/'' @ c\<rparr>,
          s @ [\<lparr>checkout = c, repo = rp, pid = Some (process_pid e),
                  timestamp = Some (now_iso e), status = ''locked''\<rparr>])"
proof (cases "resolve_repo e repoArg")
  case (Inl err)
  then have "acquireCheckout e repoArg m s = (Inl err, s)"
    by (simp add: acquireCheckout_def)
  then show ?thesis by (rule failed)
next
  case (Inr rp)
  show ?thesis
  proof (cases "capacity_exceeded m rp s")
    case True
    with Inr have "acquireCheckout e repoArg m s = (Inl CapacityExceeded, s)"
      by (simp add: acquireCheckout_def)
    then show ?thesis by (rule failed)
  next
    case False
    show ?thesis
    proof (cases rule: acquire_txn_cases [of rp s e])
      case (reuse row)
      with Inr False have "acquireCheckout e repoArg m s =
         (Inr \<lparr>id_res = checkout row, directory = POOL_DIR e @ ''/'' @ checkout row\<rparr>,
          db_lock (process_pid e) (now_iso e) (checkout row) s)"
        by (simp add: acquireCheckout_def acquire_finish_def)
      with Inr False reuse show ?thesis using that(2) by blast
    next
      case (new c)
      show ?thesis
      proof (cases "provision_ok e")
        case True
        with Inr False new(4) have "acquireCheckout e repoArg m s =
         (Inr \<lparr>id_res = c, directory = POOL_DIR e @ ''/'' @ c\<rparr>,
          s @ [\<lparr>checkout = c, repo = rp, pid = Some (process_pid e),
                  timestamp = Some (now_iso e), status = ''locked''\<rparr>])"
          by (simp add: acquireCheckout_def acquire_finish_def)
        with Inr False new True show ?thesis using that(3) by blast
      next
        case no: False
        with Inr False new(4) have "acquireCheckout e repoArg m s =
           (Inl SlotProvisioningFailed,
            db_delete c (s @ [\<lparr>checkout = c, repo = rp, pid = Some (process_pid e),
                  timestamp = Some (now_iso e), status = ''locked''\<rparr>]))"
          by (simp add: acquireCheckout_def acquire_finish_def)
        with new(2) have "acquireCheckout e repoArg m s = (Inl SlotProvisioningFailed, s)"
          by (simp add: db_delete_appended)
        then show ?thesis by (rule failed)
      qed
    qed
  qed
qed

lemma select_free_SomeD:
  "select_free rp s = Some row \<Longrightarrow> row \<in> set s \<and> repo row = rp \<and> status row = ''free''"
  by (auto simp: select_free_def find_Some_iff)

lemma pk_unique_same_row:
  "pk_unique s \<Longrightarrow> r \<in> set s \<Longrightarrow> r' \<in> set s \<Longrightarrow> checkout r = checkout r' \<Longrightarrow> r = r'"
  by (auto simp: pk_unique_def distinct_map dest: inj_onD)

lemma free_not_locked:
  assumes "pk_unique s" and "row \<in> set s" and "status row = ''free''"
  shows "checkout row \<notin> locked_names s"
proof
  assume "checkout row \<in> locked_names s"
  then obtain r where "r \<in> set s" "status r = ''locked''" "checkout r = checkout row"
    by (auto simp: locked_names_def)
  with assms show False using pk_unique_same_row [of s r row] by auto
qed

lemma locked_names_subset: "locked_names s \<subseteq> set (map checkout s)"
  by (auto simp: locked_names_def)

lemma locked_names_db_lock:
  "c \<in> set (map checkout s) \<Longrightarrow> locked_names (db_lock p t c s) = insert c (locked_names s)"
  by (induction s) (auto simp: locked_names_def db_lock_def)

lemma locked_names_db_unlock: "locked_names (db_unlock c s) = locked_names s - {c}"
  by (induction s) (auto simp: locked_names_def db_unlock_def)

lemma locked_names_append:
  "locked_names (s @ [r]) = (if status r = ''locked'' then insert (checkout r) (locked_names s) else locked_names s)"
  by (auto simp: locked_names_def)

lemma acquire_pk_unique:
  assumes "pk_unique s"
  shows "pk_unique (snd (acquireCheckout e a m s))"
proof (cases rule: acquireCheckout_cases [of e a m s])
  case (failed err)
  with assms show ?thesis by simp
next
  case (reuse rp row)
  with assms show ?thesis by (simp add: pk_unique_def checkout_db_lock)
next
  case (new rp c)
  with assms show ?thesis by (simp add: pk_unique_def)
qed

lemma acquire_locked_names:
  assumes "pk_unique s"
  shows "case acquireCheckout e a m s of
           (Inr res, s') \<Rightarrow> id_res res \<notin> locked_names s \<and>
                            locked_names s' = insert (id_res res) (locked_names s)
         | (Inl err, s') \<Rightarrow> locked_names s' = locked_names s"
proof (cases rule: acquireCheckout_cases [of e a m s])
  case (failed err)
  then show ?thesis by simp
next
  case (reuse rp row)
  from select_free_SomeD [OF reuse(3)] have row: "row \<in> set s" "status row = ''free''"
    by simp_all
  then have "checkout row \<in> set (map checkout s)" by simp
  then show ?thesis
    using reuse(5) free_not_locked [OF assms row] by (simp add: locked_names_db_lock)
next
  case (new rp c)
  then show ?thesis
    using locked_names_subset [of s] by (auto simp: locked_names_append)
qed

lemma release_pk_unique: "pk_unique s \<Longrightarrow> pk_unique (snd (releaseCheckout c s))"
  by (simp add: releaseCheckout_def pk_unique_def checkout_db_unlock split: option.splits)

lemma release_locked_names:
  "case releaseCheckout c s of
     (Inr u, s') \<Rightarrow> locked_names s' = locked_names s - {c}
   | (Inl err, s') \<Rightarrow> locked_names s' = locked_names s"
  by (simp add: releaseCheckout_def locked_names_db_unlock split: option.splits)

lemma held_step_inv:
  assumes "pk_unique s" and "locked_names s = held" and "\<not> is_remove x"
    and "held_step x (s, held) = (s', held')"
  shows "pk_unique s' \<and> locked_names s' = held'"
proof (cases x)
  case (Acquire e a m)
  obtain r s1 where a: "acquireCheckout e a m s = (r, s1)" by (cases "acquireCheckout e a m s")
  have pk: "pk_unique s1" using acquire_pk_unique [OF assms(1), of e a m] a by simp
  from acquire_locked_names [OF assms(1), where e = e and a = a and m = m] a assms(2,4) Acquire pk
  show ?thesis by (cases r) auto
next
  case (Release c)
  obtain r s1 where a: "releaseCheckout c s = (r, s1)" by (cases "releaseCheckout c s")
  have pk: "pk_unique s1" using release_pk_unique [OF assms(1), of c] a by simp
  from release_locked_names [where c = c and s = s] a assms(2,4) Release pk
  show ?thesis by (cases r) auto
next
  case (Remove e c)
  with assms(3) show ?thesis by simp
qed

lemma held_fold_inv:
  assumes "list_all (\<lambda>x. \<not> is_remove x) ops" and "pk_unique s" and "locked_names s = held"
    and "fold held_step ops (s, held) = (s', held')"
  shows "pk_unique s' \<and> locked_names s' = held'"
  using assms
proof (induction ops arbitrary: s held)
  case Nil
  then show ?case by simp
next
  case (Cons x ops)
  obtain s1 h1 where st: "held_step x (s, held) = (s1, h1)" by (cases "held_step x (s, held)")
  from Cons.prems have nr: "\<not> is_remove x" and rest: "list_all (\<lambda>x. \<not> is_remove x) ops"
    by simp_all
  from held_step_inv [OF Cons.prems(2,3) nr st] have "pk_unique s1" "locked_names s1 = h1"
    by simp_all
  moreover from Cons.prems(4) st have "fold held_step ops (s1, h1) = (s', held')" by simp
  ultimately show ?case using Cons.IH [OF rest] by blast
qed

section \<open>The capacity limit\<close>

text \<open>
  C2. When \<^verbatim>\<open>maxCheckouts\<close> is given and positive and the table already holds
  that many rows of the requested repository, of whatever status, then
  \<^verbatim>\<open>acquireCheckout\<close> throws the capacity error and the table is the one it
  was: nothing is inserted, updated or deleted.
\<close>

theorem acquire_capacity_exceeded:
  assumes "resolve_repo e repoArg = Inr rp"
    and "maxCheckouts = Some m" and "0 < m"
    and "m \<le> int (length (filter (\<lambda>r. repo r = rp) s))"
  shows "acquireCheckout e repoArg maxCheckouts s = (Inl CapacityExceeded, s)"
  using assms by (simp add: acquireCheckout_def capacity_exceeded_def count_repo_def)

theorem acquire_capacity_exceeded_witness:
  "resolve_repo ex_env (Some ''repo'') = Inr ''repo'' \<and> (0::int) < 1 \<and>
   1 \<le> int (length (filter (\<lambda>r. repo r = ''repo'') [ex_free ''checkout-1'' ''repo''])) \<and>
   acquireCheckout ex_env (Some ''repo'') (Some 1) [ex_free ''checkout-1'' ''repo''] =
     (Inl CapacityExceeded, [ex_free ''checkout-1'' ''repo''])"
proof -
  have r: "resolve_repo ex_env (Some ''repo'') = Inr ''repo''"
    by (simp add: resolve_repo_def)
  have c: "1 \<le> int (length (filter (\<lambda>r. repo r = ''repo'') [ex_free ''checkout-1'' ''repo'']))"
    by (simp add: ex_free_def)
  show ?thesis
    using r c acquire_capacity_exceeded [OF r refl _ c] by simp
qed

section \<open>Locked slots and handed-out names\<close>

text \<open>
  C1. Start from the empty pool and run any sequence of acquire and release
  operations (no remove), for one repository or several. Then the names whose
  row is \<^verbatim>\<open>locked\<close> are exactly the names that \<^verbatim>\<open>acquireCheckout\<close> has
  returned and that have not been released since; and an acquire in that state
  never returns a name of that set, it adds the name it returns to the set.
\<close>

theorem locked_names_are_held:
  assumes "list_all (\<lambda>x. \<not> is_remove x) ops" and "held_run ops = (s, held)"
  shows "locked_names s = held \<and>
         (\<forall>e repoArg m res s'. acquireCheckout e repoArg m s = (Inr res, s') \<longrightarrow>
            id_res res \<notin> held \<and> locked_names s' = insert (id_res res) held)"
proof -
  have "pk_unique []" "locked_names [] = {}" by (simp_all add: pk_unique_def locked_names_def)
  from held_fold_inv [OF assms(1) this] assms(2)
  have inv: "pk_unique s" "locked_names s = held" by (simp_all add: held_run_def)
  have "id_res res \<notin> held \<and> locked_names s' = insert (id_res res) held"
    if "acquireCheckout e repoArg m s = (Inr res, s')" for e repoArg m res s'
    using acquire_locked_names [OF inv(1), where e = e and a = repoArg and m = m] that inv(2) by simp
  with inv(2) show ?thesis by blast
qed

theorem locked_names_are_held_witness:
  "list_all (\<lambda>x. \<not> is_remove x) ex_ops \<and>
   held_run ex_ops =
     ([ex_free ''checkout-1'' ''repo'', ex_locked ''checkout-2'' ''repo''], {''checkout-2''}) \<and>
   locked_names [ex_free ''checkout-1'' ''repo'', ex_locked ''checkout-2'' ''repo''] = {''checkout-2''} \<and>
   acquireCheckout ex_env (Some ''repo'') None
       [ex_free ''checkout-1'' ''repo'', ex_locked ''checkout-2'' ''repo''] =
     (Inr \<lparr>id_res = ''checkout-1'', directory = ''/home/u/.gitproc_pool/checkout-1''\<rparr>,
      [ex_locked ''checkout-1'' ''repo'', ex_locked ''checkout-2'' ''repo'']) \<and>
   ''checkout-1'' \<notin> {''checkout-2''} \<and>
   locked_names [ex_locked ''checkout-1'' ''repo'', ex_locked ''checkout-2'' ''repo''] =
     insert ''checkout-1'' {''checkout-2''}"
proof -
  have a: "list_all (\<lambda>x. \<not> is_remove x) ex_ops"
    by code_simp
  have h: "held_run ex_ops =
     ([ex_free ''checkout-1'' ''repo'', ex_locked ''checkout-2'' ''repo''], {''checkout-2''})"
    by code_simp
  have q: "acquireCheckout ex_env (Some ''repo'') None
       [ex_free ''checkout-1'' ''repo'', ex_locked ''checkout-2'' ''repo''] =
     (Inr \<lparr>id_res = ''checkout-1'', directory = ''/home/u/.gitproc_pool/checkout-1''\<rparr>,
      [ex_locked ''checkout-1'' ''repo'', ex_locked ''checkout-2'' ''repo''])"
    by code_simp
  note t = locked_names_are_held [OF a h]
  from t have l: "locked_names [ex_free ''checkout-1'' ''repo'', ex_locked ''checkout-2'' ''repo''] =
      {''checkout-2''}"
    by (rule conjunct1)
  from t [THEN conjunct2, rule_format, OF q]
  have "id_res \<lparr>id_res = ''checkout-1'', directory = ''/home/u/.gitproc_pool/checkout-1''\<rparr>
        \<notin> {''checkout-2''} \<and>
      locked_names [ex_locked ''checkout-1'' ''repo'', ex_locked ''checkout-2'' ''repo''] =
        insert (id_res \<lparr>id_res = ''checkout-1'', directory = ''/home/u/.gitproc_pool/checkout-1''\<rparr>)
          {''checkout-2''}" .
  then have n: "''checkout-1'' \<notin> {''checkout-2''}"
    and i: "locked_names [ex_locked ''checkout-1'' ''repo'', ex_locked ''checkout-2'' ''repo''] =
     insert ''checkout-1'' {''checkout-2''}"
    by simp_all
  show ?thesis using a h l q n i by (intro conjI) assumption+
qed

section \<open>Provisioning failure\<close>

text \<open>
  C5. Take an acquire that passes the capacity check and whose transaction
  commits a new row (\<^verbatim>\<open>isNew\<close> is true). When the provisioning of the shared
  repository or of the worktree then fails, the committed row, locked and bound
  to the repository, is deleted again and the provisioning error is thrown: the
  table that is left has no row of that name, it is the table from before the call.
\<close>

theorem provisioning_failure_deletes_row:
  assumes "resolve_repo e repoArg = Inr rp" and "\<not> capacity_exceeded m rp s"
    and "acquire_txn e rp s = Inr (s1, c, True, dir)"
    and "\<not> provision_ok e"
  shows "(\<exists>row. s1 = s @ [row] \<and> checkout row = c \<and> repo row = rp \<and> status row = ''locked'') \<and>
         acquireCheckout e repoArg m s = (Inl SlotProvisioningFailed, db_delete c s1) \<and>
         c \<notin> names (db_delete c s1) \<and> db_delete c s1 = s"
proof (cases rule: acquire_txn_cases [of rp s e])
  case (reuse row)
  with assms(3) show ?thesis by simp
next
  case (new c')
  from assms(3) new(4) have c: "c' = c"
    and s1: "s1 = s @ [\<lparr>checkout = c, repo = rp, pid = Some (process_pid e),
                       timestamp = Some (now_iso e), status = ''locked''\<rparr>]"
    by auto
  from s1 have ex: "\<exists>row. s1 = s @ [row] \<and> checkout row = c \<and> repo row = rp \<and> status row = ''locked''"
    by simp
  from new(2) c s1 have del: "db_delete c s1 = s"
    by (simp add: db_delete_appended)
  have gone: "c \<notin> names (db_delete c s1)"
    using names_db_delete [of c s1] by (simp add: names_def)
  have "acquireCheckout e repoArg m s = (Inl SlotProvisioningFailed, db_delete c s1)"
    using assms by (simp add: acquireCheckout_def acquire_finish_def)
  with ex gone del show ?thesis by blast
qed

theorem provisioning_failure_deletes_row_witness:
  "resolve_repo ex_env_fail (Some ''repo'') = Inr ''repo'' \<and>
   \<not> capacity_exceeded None ''repo'' [ex_locked ''checkout-1'' ''repo''] \<and>
   acquire_txn ex_env_fail ''repo'' [ex_locked ''checkout-1'' ''repo''] =
     Inr ([ex_locked ''checkout-1'' ''repo'', ex_locked ''checkout-2'' ''repo''], ''checkout-2'', True,
          ''/home/u/.gitproc_pool/checkout-2'') \<and>
   \<not> provision_ok ex_env_fail \<and>
   acquireCheckout ex_env_fail (Some ''repo'') None [ex_locked ''checkout-1'' ''repo''] =
     (Inl SlotProvisioningFailed, [ex_locked ''checkout-1'' ''repo'']) \<and>
   ''checkout-2'' \<notin> names [ex_locked ''checkout-1'' ''repo'']"
proof -
  have r: "resolve_repo ex_env_fail (Some ''repo'') = Inr ''repo''"
    by code_simp
  have c: "\<not> capacity_exceeded None ''repo'' [ex_locked ''checkout-1'' ''repo'']"
    by code_simp
  have t: "acquire_txn ex_env_fail ''repo'' [ex_locked ''checkout-1'' ''repo''] =
     Inr ([ex_locked ''checkout-1'' ''repo'', ex_locked ''checkout-2'' ''repo''], ''checkout-2'', True,
          ''/home/u/.gitproc_pool/checkout-2'')"
    by code_simp
  have p: "\<not> provision_ok ex_env_fail"
    by code_simp
  from provisioning_failure_deletes_row [OF r c t p]
  have a: "acquireCheckout ex_env_fail (Some ''repo'') None [ex_locked ''checkout-1'' ''repo''] =
     (Inl SlotProvisioningFailed,
      db_delete ''checkout-2'' [ex_locked ''checkout-1'' ''repo'', ex_locked ''checkout-2'' ''repo''])"
    and g: "''checkout-2'' \<notin> names
      (db_delete ''checkout-2'' [ex_locked ''checkout-1'' ''repo'', ex_locked ''checkout-2'' ''repo''])"
    and d: "db_delete ''checkout-2'' [ex_locked ''checkout-1'' ''repo'', ex_locked ''checkout-2'' ''repo'']
      = [ex_locked ''checkout-1'' ''repo'']"
    by blast+
  from g d have "''checkout-2'' \<notin> names [ex_locked ''checkout-1'' ''repo'']"
    by simp
  with a d r c t p show ?thesis by simp
qed

section \<open>The row invariant\<close>

lemma repo_kept_iff:
  "repo_kept s s' \<longleftrightarrow> (\<forall>r'\<in>set s'. \<forall>r\<in>set s. checkout r = checkout r' \<longrightarrow> repo r = repo r')"
  by (simp add: repo_kept_def list_all_iff)

lemma repo_kept_same_keys:
  assumes "pk_unique s" and "map checkout s' = map checkout s" and "map repo s' = map repo s"
  shows "repo_kept s s'"
  unfolding repo_kept_iff
proof (intro ballI impI)
  fix r' r
  assume r': "r' \<in> set s'" and r: "r \<in> set s" and eq: "checkout r = checkout r'"
  from assms(2) have len: "length s' = length s" by (rule map_eq_imp_length_eq)
  from r' obtain i where i: "i < length s'" "s' ! i = r'" by (auto simp: in_set_conv_nth)
  from i len assms(2) have ck: "checkout (s ! i) = checkout r'"
    by (metis nth_map)
  from i len assms(3) have rp: "repo (s ! i) = repo r'"
    by (metis nth_map)
  from i len have "s ! i \<in> set s" by simp
  with assms(1) r ck eq have "s ! i = r" using pk_unique_same_row [of s "s ! i" r] by simp
  with rp show "repo r = repo r'" by simp
qed

lemma repo_kept_subset:
  assumes "pk_unique s" and "set s' \<subseteq> set s"
  shows "repo_kept s s'"
  unfolding repo_kept_iff using assms pk_unique_same_row [of s] by blast

lemma repo_kept_append:
  assumes "pk_unique s" and "checkout row \<notin> set (map checkout s)"
  shows "repo_kept s (s @ [row])"
  unfolding repo_kept_iff using assms pk_unique_same_row [of s] by (auto simp: image_iff)

lemma row_inv_db_lock: "list_all row_inv s \<Longrightarrow> list_all row_inv (db_lock p t c s)"
  by (induction s) (auto simp: db_lock_def row_inv_def)

lemma row_inv_db_unlock: "list_all row_inv s \<Longrightarrow> list_all row_inv (db_unlock c s)"
  by (induction s) (auto simp: db_unlock_def row_inv_def)

lemma row_inv_db_delete: "list_all row_inv s \<Longrightarrow> list_all row_inv (db_delete c s)"
  by (simp add: db_delete_def list_all_iff)

lemma pk_unique_db_delete: "pk_unique s \<Longrightarrow> pk_unique (db_delete c s)"
  by (simp add: pk_unique_def db_delete_def distinct_map_filter)

lemma acquire_keeps_invariant:
  assumes "store_inv s"
  shows "store_inv (snd (acquireCheckout e a m s)) \<and>
         repo_kept s (snd (acquireCheckout e a m s)) \<and>
         map checkout (take (length s) (snd (acquireCheckout e a m s))) = map checkout s \<and>
         map repo (take (length s) (snd (acquireCheckout e a m s))) = map repo s"
proof -
  from assms have pk: "pk_unique s" and ri: "list_all row_inv s"
    by (simp_all add: store_inv_def)
  show ?thesis
  proof (cases rule: acquireCheckout_cases [of e a m s])
    case (failed err)
    with assms pk show ?thesis by (simp add: repo_kept_subset)
  next
    case (reuse rp row)
    have "pk_unique (db_lock (process_pid e) (now_iso e) (checkout row) s)"
      using pk by (simp add: pk_unique_def checkout_db_lock)
    moreover have "repo_kept s (db_lock (process_pid e) (now_iso e) (checkout row) s)"
      using pk by (intro repo_kept_same_keys) (simp_all add: checkout_db_lock repo_db_lock)
    moreover have "length (db_lock (process_pid e) (now_iso e) (checkout row) s) = length s"
      by (simp add: db_lock_def)
    ultimately show ?thesis
      using reuse(5) ri by (simp add: store_inv_def row_inv_db_lock checkout_db_lock repo_db_lock)
  next
    case (new rp c)
    have "row_inv \<lparr>checkout = c, repo = rp, pid = Some (process_pid e),
                    timestamp = Some (now_iso e), status = ''locked''\<rparr>"
      by (simp add: row_inv_def)
    moreover have "repo_kept s (s @ [\<lparr>checkout = c, repo = rp, pid = Some (process_pid e),
                    timestamp = Some (now_iso e), status = ''locked''\<rparr>])"
      using pk new(4) by (intro repo_kept_append) simp_all
    ultimately show ?thesis
      using new(4,7) pk ri by (simp add: store_inv_def pk_unique_def)
  qed
qed

lemma release_keeps_invariant:
  assumes "store_inv s"
  shows "store_inv (snd (releaseCheckout c s)) \<and>
         repo_kept s (snd (releaseCheckout c s)) \<and>
         map checkout (snd (releaseCheckout c s)) = map checkout s \<and>
         map repo (snd (releaseCheckout c s)) = map repo s"
proof -
  from assms have pk: "pk_unique s" and ri: "list_all row_inv s"
    by (simp_all add: store_inv_def)
  have "snd (releaseCheckout c s) = s \<or> snd (releaseCheckout c s) = db_unlock c s"
    by (simp add: releaseCheckout_def split: option.splits)
  then show ?thesis
  proof
    assume "snd (releaseCheckout c s) = s"
    with assms pk show ?thesis by (simp add: repo_kept_subset)
  next
    assume u: "snd (releaseCheckout c s) = db_unlock c s"
    have "pk_unique (db_unlock c s)"
      using pk by (simp add: pk_unique_def checkout_db_unlock)
    moreover have "repo_kept s (db_unlock c s)"
      using pk by (intro repo_kept_same_keys) (simp_all add: checkout_db_unlock repo_db_unlock)
    ultimately show ?thesis
      using u ri by (simp add: store_inv_def row_inv_db_unlock checkout_db_unlock repo_db_unlock)
  qed
qed

lemma remove_keeps_invariant:
  assumes "store_inv s"
  shows "store_inv (snd (removeCheckout e c s)) \<and>
         repo_kept s (snd (removeCheckout e c s)) \<and>
         set (snd (removeCheckout e c s)) \<subseteq> set s"
proof -
  from assms have pk: "pk_unique s" and ri: "list_all row_inv s"
    by (simp_all add: store_inv_def)
  have "snd (removeCheckout e c s) = s \<or> snd (removeCheckout e c s) = db_delete c s"
    by (simp add: removeCheckout_def split: option.splits)
  then show ?thesis
  proof
    assume "snd (removeCheckout e c s) = s"
    with assms pk show ?thesis by (simp add: repo_kept_subset)
  next
    assume u: "snd (removeCheckout e c s) = db_delete c s"
    have sub: "set (db_delete c s) \<subseteq> set s" by (auto simp: db_delete_def)
    with pk have "repo_kept s (db_delete c s)" by (rule repo_kept_subset)
    with u sub pk ri show ?thesis
      by (simp add: store_inv_def pk_unique_db_delete row_inv_db_delete)
  qed
qed

text \<open>
  C8. Each of \<^verbatim>\<open>acquireCheckout\<close>, \<^verbatim>\<open>releaseCheckout\<close> and \<^verbatim>\<open>removeCheckout\<close>,
  whatever it returns, keeps the invariant of the table: at most one row for a
  name, a locked row has its pid and its timestamp, a free row has neither.
  The repository of a row is never changed: a name that is in the table before
  and after has the same repository; acquire leaves the names and repositories
  of the rows that were there as they are, release leaves all of them as they
  are, remove leaves only rows that were there.
\<close>

theorem operations_keep_row_invariant:
  assumes "store_inv s"
  shows "store_inv (snd (acquireCheckout e repoArg m s)) \<and>
         repo_kept s (snd (acquireCheckout e repoArg m s)) \<and>
         map checkout (take (length s) (snd (acquireCheckout e repoArg m s))) = map checkout s \<and>
         map repo (take (length s) (snd (acquireCheckout e repoArg m s))) = map repo s \<and>
         store_inv (snd (releaseCheckout c s)) \<and>
         repo_kept s (snd (releaseCheckout c s)) \<and>
         map checkout (snd (releaseCheckout c s)) = map checkout s \<and>
         map repo (snd (releaseCheckout c s)) = map repo s \<and>
         store_inv (snd (removeCheckout e' c' s)) \<and>
         repo_kept s (snd (removeCheckout e' c' s)) \<and>
         set (snd (removeCheckout e' c' s)) \<subseteq> set s"
  using acquire_keeps_invariant [OF assms, of e repoArg m]
    release_keeps_invariant [OF assms, of c]
    remove_keeps_invariant [OF assms, of e' c']
  by simp


theorem operations_keep_row_invariant_witness:
  "store_inv [ex_free ''checkout-1'' ''repo'', ex_locked ''checkout-2'' ''repo''] \<and>
   snd (acquireCheckout ex_env (Some ''repo'') None
          [ex_free ''checkout-1'' ''repo'', ex_locked ''checkout-2'' ''repo'']) =
     [ex_locked ''checkout-1'' ''repo'', ex_locked ''checkout-2'' ''repo''] \<and>
   store_inv [ex_locked ''checkout-1'' ''repo'', ex_locked ''checkout-2'' ''repo''] \<and>
   repo_kept [ex_free ''checkout-1'' ''repo'', ex_locked ''checkout-2'' ''repo'']
             [ex_locked ''checkout-1'' ''repo'', ex_locked ''checkout-2'' ''repo''] \<and>
   store_inv (snd (releaseCheckout ''checkout-2''
          [ex_free ''checkout-1'' ''repo'', ex_locked ''checkout-2'' ''repo''])) \<and>
   store_inv (snd (removeCheckout ex_env ''checkout-2''
          [ex_free ''checkout-1'' ''repo'', ex_locked ''checkout-2'' ''repo'']))"
proof -
  have i: "store_inv [ex_free ''checkout-1'' ''repo'', ex_locked ''checkout-2'' ''repo'']"
    by code_simp
  have a: "snd (acquireCheckout ex_env (Some ''repo'') None
          [ex_free ''checkout-1'' ''repo'', ex_locked ''checkout-2'' ''repo'']) =
     [ex_locked ''checkout-1'' ''repo'', ex_locked ''checkout-2'' ''repo'']"
    by code_simp
  from operations_keep_row_invariant [OF i, of ex_env "Some ''repo''" None "''checkout-2''"
      ex_env "''checkout-2''"] i a
  show ?thesis by simp
qed

section \<open>What a successful acquire returns\<close>

lemma set_db_lock:
  "set (db_lock p t c s) =
     (\<lambda>r. if checkout r = c
          then r\<lparr>pid := Some p, timestamp := Some t, status := ''locked''\<rparr> else r) ` set s"
  by (simp add: db_lock_def)

text \<open>
  C10. When \<^verbatim>\<open>acquireCheckout\<close> succeeds for the repository key \<open>rp\<close>, the row
  of the returned name is locked and bound to \<open>rp\<close>, it is the only row of
  that name, and if the name was in the table before, its row was a free row of
  \<open>rp\<close>; the returned directory is the pool directory, a slash and the name.
\<close>

theorem acquire_returns_slot_of_repo:
  assumes "pk_unique s" and "resolve_repo e repoArg = Inr rp"
    and "acquireCheckout e repoArg m s = (Inr res, s')"
  shows "(\<exists>r\<in>set s'. checkout r = id_res res \<and> repo r = rp \<and> status r = ''locked'') \<and>
         (\<forall>r\<in>set s'. checkout r = id_res res \<longrightarrow> repo r = rp) \<and>
         (\<forall>r\<in>set s. checkout r = id_res res \<longrightarrow> repo r = rp \<and> status r = ''free'') \<and>
         directory res = POOL_DIR e @ ''/'' @ id_res res \<and>
         POOL_DIR e = HOME e @ ''/.gitproc_pool''"
proof (cases rule: acquireCheckout_cases [of e repoArg m s])
  case (failed err)
  with assms(3) show ?thesis by simp
next
  case (reuse rp' row)
  with assms(2,3) have rp: "rp' = rp"
    and res: "res = \<lparr>id_res = checkout row, directory = POOL_DIR e @ ''/'' @ checkout row\<rparr>"
    and s': "s' = db_lock (process_pid e) (now_iso e) (checkout row) s"
    by simp_all
  from select_free_SomeD [OF reuse(3)] rp
  have row: "row \<in> set s" "repo row = rp" "status row = ''free''" by simp_all
  have only: "r = row" if "r \<in> set s" "checkout r = checkout row" for r
    using pk_unique_same_row [OF assms(1) that(1) row(1) that(2)] .
  have 1: "\<exists>r\<in>set s'. checkout r = id_res res \<and> repo r = rp \<and> status r = ''locked''"
    unfolding s' set_db_lock res using row
    by (intro bexI [of _ "row\<lparr>pid := Some (process_pid e), timestamp := Some (now_iso e),
                              status := ''locked''\<rparr>"]) (auto simp: image_iff intro!: bexI [of _ row])
  have 2: "\<forall>r\<in>set s'. checkout r = id_res res \<longrightarrow> repo r = rp"
  proof (intro ballI impI)
    fix r
    assume "r \<in> set s'" and c: "checkout r = id_res res"
    then obtain r0 where r0: "r0 \<in> set s"
      and r: "r = (if checkout r0 = checkout row
                   then r0\<lparr>pid := Some (process_pid e), timestamp := Some (now_iso e),
                          status := ''locked''\<rparr> else r0)"
      unfolding s' set_db_lock by blast
    from r have "checkout r0 = checkout r" and "repo r0 = repo r" by (simp_all split: if_splits)
    with c res only [OF r0] row(2) show "repo r = rp" by simp
  qed
  have 3: "\<forall>r\<in>set s. checkout r = id_res res \<longrightarrow> repo r = rp \<and> status r = ''free''"
  proof (intro ballI impI)
    fix r
    assume "r \<in> set s" and "checkout r = id_res res"
    with res only [of r] have "r = row" by simp
    with row show "repo r = rp \<and> status r = ''free''" by simp
  qed
  from 1 2 3 res show ?thesis by (simp add: POOL_DIR_def)
next
  case (new rp' c)
  with assms(2,3) have rp: "rp' = rp"
    and res: "res = \<lparr>id_res = c, directory = POOL_DIR e @ ''/'' @ c\<rparr>"
    and s': "s' = s @ [\<lparr>checkout = c, repo = rp, pid = Some (process_pid e),
                  timestamp = Some (now_iso e), status = ''locked''\<rparr>]"
    by simp_all
  from new(4) have fresh: "\<forall>r\<in>set s. checkout r \<noteq> c" by auto
  with res s' show ?thesis by (auto simp: POOL_DIR_def)
qed

theorem acquire_returns_slot_of_repo_witness:
  "pk_unique [ex_free ''checkout-1'' ''other'', ex_free ''checkout-2'' ''repo''] \<and>
   resolve_repo ex_env (Some ''repo'') = Inr ''repo'' \<and>
   acquireCheckout ex_env (Some ''repo'') None
      [ex_free ''checkout-1'' ''other'', ex_free ''checkout-2'' ''repo''] =
     (Inr \<lparr>id_res = ''checkout-2'', directory = ''/home/u/.gitproc_pool/checkout-2''\<rparr>,
      [ex_free ''checkout-1'' ''other'', ex_locked ''checkout-2'' ''repo'']) \<and>
   (\<exists>r\<in>set [ex_free ''checkout-1'' ''other'', ex_locked ''checkout-2'' ''repo''].
      checkout r = ''checkout-2'' \<and> repo r = ''repo'' \<and> status r = ''locked'') \<and>
   \<not> (\<exists>r\<in>set [ex_free ''checkout-1'' ''other'', ex_locked ''checkout-2'' ''repo''].
      checkout r = ''checkout-2'' \<and> repo r \<noteq> ''repo'') \<and>
   ''/home/u/.gitproc_pool/checkout-2'' = POOL_DIR ex_env @ ''/'' @ ''checkout-2''"
proof -
  have p: "pk_unique [ex_free ''checkout-1'' ''other'', ex_free ''checkout-2'' ''repo'']"
    by code_simp
  have r: "resolve_repo ex_env (Some ''repo'') = Inr ''repo''"
    by code_simp
  have a: "acquireCheckout ex_env (Some ''repo'') None
      [ex_free ''checkout-1'' ''other'', ex_free ''checkout-2'' ''repo''] =
     (Inr \<lparr>id_res = ''checkout-2'', directory = ''/home/u/.gitproc_pool/checkout-2''\<rparr>,
      [ex_free ''checkout-1'' ''other'', ex_locked ''checkout-2'' ''repo''])"
    by code_simp
  note t = acquire_returns_slot_of_repo [OF p r a]
  from t have 1: "\<exists>r\<in>set [ex_free ''checkout-1'' ''other'', ex_locked ''checkout-2'' ''repo''].
      checkout r = ''checkout-2'' \<and> repo r = ''repo'' \<and> status r = ''locked''"
    by simp
  from t have 2: "\<not> (\<exists>r\<in>set [ex_free ''checkout-1'' ''other'', ex_locked ''checkout-2'' ''repo''].
      checkout r = ''checkout-2'' \<and> repo r \<noteq> ''repo'')"
    by simp
  from t have 3: "''/home/u/.gitproc_pool/checkout-2'' = POOL_DIR ex_env @ ''/'' @ ''checkout-2''"
    by simp
  show ?thesis using p r a 1 2 3 by (intro conjI) assumption+
qed

section \<open>Release and remove\<close>

lemma select_by_name_None: "select_by_name c s = None \<longleftrightarrow> (\<forall>r\<in>set s. checkout r \<noteq> c)"
  by (auto simp: select_by_name_def find_None_iff)

lemma select_by_name_SomeD:
  "select_by_name c s = Some row \<Longrightarrow> row \<in> set s \<and> checkout row = c"
  by (auto simp: select_by_name_def find_Some_iff)


lemma checkout_listCheckouts: "map checkout (listCheckouts s) = map checkout s"
  by (simp add: listCheckouts_def)

text \<open>
  C6, as the code has it. For a name that is not empty, \<^verbatim>\<open>releaseCheckout\<close>
  succeeds exactly when the table has a row of that name with status
  \<^verbatim>\<open>locked\<close>; it then sets that row to \<^verbatim>\<open>free\<close> and clears its pid and its
  timestamp, and leaves every other row as it is. It throws the not-found error
  when no row has the name and the not-locked error when the row is not locked
  (a free row, then); the table is unchanged in both cases. The empty name is
  rejected by the schema before the table is read.
\<close>

theorem release_behaviour:
  assumes "pk_unique s" and "c \<noteq> []"
  shows "(fst (releaseCheckout c s) = Inr () \<longleftrightarrow> (\<exists>r\<in>set s. checkout r = c \<and> status r = ''locked'')) \<and>
         ((\<exists>r\<in>set s. checkout r = c \<and> status r = ''locked'') \<longrightarrow>
            snd (releaseCheckout c s) =
              map (\<lambda>r. if checkout r = c
                        then r\<lparr>pid := None, timestamp := None, status := ''free''\<rparr> else r) s) \<and>
         ((\<forall>r\<in>set s. checkout r \<noteq> c) \<longrightarrow> releaseCheckout c s = (Inl NotFound, s)) \<and>
         ((\<exists>r\<in>set s. checkout r = c \<and> status r \<noteq> ''locked'') \<longrightarrow>
            releaseCheckout c s = (Inl NotLocked, s)) \<and>
         releaseCheckout [] s = (Inl ValidationError, s)"
proof (cases "select_by_name c s")
  case None
  then have no: "\<forall>r\<in>set s. checkout r \<noteq> c" by (simp add: select_by_name_None)
  from None assms(2) have "releaseCheckout c s = (Inl NotFound, s)"
    by (simp add: releaseCheckout_def)
  with no show ?thesis by (auto simp: releaseCheckout_def)
next
  case (Some row)
  from select_by_name_SomeD [OF Some] have row: "row \<in> set s" "checkout row = c" by simp_all
  have only: "r = row" if "r \<in> set s" "checkout r = c" for r
    using pk_unique_same_row [OF assms(1) that(1) row(1)] that(2) row(2) by simp
  have v: "releaseCheckout [] s = (Inl ValidationError, s)"
    by (simp add: releaseCheckout_def)
  have ex: "\<not> (\<forall>r\<in>set s. checkout r \<noteq> c)"
    using row by blast
  show ?thesis
  proof (cases "status row = ''locked''")
    case True
    with Some assms(2) have r: "releaseCheckout c s = (Inr (), db_unlock c s)"
      by (simp add: releaseCheckout_def)
    have l: "\<exists>r\<in>set s. checkout r = c \<and> status r = ''locked''"
      using row True by blast
    have nl: "\<not> (\<exists>r\<in>set s. checkout r = c \<and> status r \<noteq> ''locked'')"
      using only True by blast
    from r have "fst (releaseCheckout c s) = Inr ()"
      and "snd (releaseCheckout c s) =
              map (\<lambda>r. if checkout r = c
                        then r\<lparr>pid := None, timestamp := None, status := ''free''\<rparr> else r) s"
      by (simp_all add: db_unlock_def)
    with l nl ex v show ?thesis by blast
  next
    case False
    with Some assms(2) have r: "releaseCheckout c s = (Inl NotLocked, s)"
      by (simp add: releaseCheckout_def)
    have nl: "\<not> (\<exists>r\<in>set s. checkout r = c \<and> status r = ''locked'')"
      using only False by blast
    from r have "fst (releaseCheckout c s) \<noteq> Inr ()" by simp
    with r nl ex v show ?thesis by blast
  qed
qed

theorem release_behaviour_witness:
  "pk_unique [ex_free ''checkout-1'' ''repo'', ex_locked ''checkout-2'' ''repo''] \<and> ''checkout-2'' \<noteq> [] \<and>
   (\<exists>r\<in>set [ex_free ''checkout-1'' ''repo'', ex_locked ''checkout-2'' ''repo''].
      checkout r = ''checkout-2'' \<and> status r = ''locked'') \<and>
   releaseCheckout ''checkout-2'' [ex_free ''checkout-1'' ''repo'', ex_locked ''checkout-2'' ''repo''] =
     (Inr (), [ex_free ''checkout-1'' ''repo'', ex_free ''checkout-2'' ''repo'']) \<and>
   releaseCheckout ''checkout-1'' [ex_free ''checkout-1'' ''repo'', ex_locked ''checkout-2'' ''repo''] =
     (Inl NotLocked, [ex_free ''checkout-1'' ''repo'', ex_locked ''checkout-2'' ''repo'']) \<and>
   releaseCheckout ''checkout-3'' [ex_free ''checkout-1'' ''repo'', ex_locked ''checkout-2'' ''repo''] =
     (Inl NotFound, [ex_free ''checkout-1'' ''repo'', ex_locked ''checkout-2'' ''repo''])"
proof -
  have p: "pk_unique [ex_free ''checkout-1'' ''repo'', ex_locked ''checkout-2'' ''repo'']"
    by code_simp
  have l: "\<exists>r\<in>set [ex_free ''checkout-1'' ''repo'', ex_locked ''checkout-2'' ''repo''].
      checkout r = ''checkout-2'' \<and> status r = ''locked''"
    by (simp add: ex_locked_def)
  have f: "\<exists>r\<in>set [ex_free ''checkout-1'' ''repo'', ex_locked ''checkout-2'' ''repo''].
      checkout r = ''checkout-1'' \<and> status r \<noteq> ''locked''"
    by (simp add: ex_free_def)
  have n: "\<forall>r\<in>set [ex_free ''checkout-1'' ''repo'', ex_locked ''checkout-2'' ''repo''].
      checkout r \<noteq> ''checkout-3''"
    by (simp add: ex_free_def ex_locked_def)
  have u: "map (\<lambda>r. if checkout r = ''checkout-2''
                        then r\<lparr>pid := None, timestamp := None, status := ''free''\<rparr> else r)
             [ex_free ''checkout-1'' ''repo'', ex_locked ''checkout-2'' ''repo''] =
           [ex_free ''checkout-1'' ''repo'', ex_free ''checkout-2'' ''repo'']"
    by (simp add: ex_free_def ex_locked_def)
  note t2 = release_behaviour [OF p, of "''checkout-2''"]
  from t2 l have "fst (releaseCheckout ''checkout-2''
        [ex_free ''checkout-1'' ''repo'', ex_locked ''checkout-2'' ''repo'']) = Inr ()"
    and "snd (releaseCheckout ''checkout-2''
        [ex_free ''checkout-1'' ''repo'', ex_locked ''checkout-2'' ''repo'']) =
      map (\<lambda>r. if checkout r = ''checkout-2''
                        then r\<lparr>pid := None, timestamp := None, status := ''free''\<rparr> else r)
             [ex_free ''checkout-1'' ''repo'', ex_locked ''checkout-2'' ''repo'']"
    by blast+
  then have 1: "releaseCheckout ''checkout-2'' [ex_free ''checkout-1'' ''repo'', ex_locked ''checkout-2'' ''repo''] =
     (Inr (), [ex_free ''checkout-1'' ''repo'', ex_free ''checkout-2'' ''repo''])"
    by (simp only: u prod_eq_iff fst_conv snd_conv simp_thms)
  note t1 = release_behaviour [OF p, of "''checkout-1''"]
  from t1 f
  have 2: "releaseCheckout ''checkout-1'' [ex_free ''checkout-1'' ''repo'', ex_locked ''checkout-2'' ''repo''] =
     (Inl NotLocked, [ex_free ''checkout-1'' ''repo'', ex_locked ''checkout-2'' ''repo''])"
    by blast
  note t3 = release_behaviour [OF p, of "''checkout-3''"]
  from t3 n
  have 3: "releaseCheckout ''checkout-3'' [ex_free ''checkout-1'' ''repo'', ex_locked ''checkout-2'' ''repo''] =
     (Inl NotFound, [ex_free ''checkout-1'' ''repo'', ex_locked ''checkout-2'' ''repo''])"
    by blast
  from p l 1 2 3 show ?thesis by blast
qed

text \<open>
  The claim C6 as it is written fails at the empty name: no row has it, and the
  error is the one of the schema, not the not-found error.
\<close>

theorem release_counterexample:
  "releaseCheckout '''' [] = (Inl ValidationError, []) \<and>
   fst (releaseCheckout '''' []) \<noteq> Inl NotFound"
  by (simp add: releaseCheckout_def)

text \<open>
  C7, as the code has it. For a name that is not empty, \<^verbatim>\<open>removeCheckout\<close>
  deletes the row of that name whatever its status, provided the worktree can be
  removed by git or, failing that, by \<^verbatim>\<open>rm -rf\<close>; when both fail the exception
  leaves the row in place. It throws the not-found error when no row has the
  name. After a successful remove, the listing of the table that is left does
  not show the name. The empty name is rejected by the schema.
\<close>

theorem remove_behaviour:
  assumes "c \<noteq> []"
  shows "((\<exists>r\<in>set s. checkout r = c) \<and> (worktree_remove_ok e \<or> rm_rf_ok e) \<longrightarrow>
            removeCheckout e c s = (Inr (), filter (\<lambda>r. checkout r \<noteq> c) s)) \<and>
         ((\<exists>r\<in>set s. checkout r = c) \<and> \<not> worktree_remove_ok e \<and> \<not> rm_rf_ok e \<longrightarrow>
            removeCheckout e c s = (Inl TeardownFailed, s)) \<and>
         ((\<forall>r\<in>set s. checkout r \<noteq> c) \<longrightarrow> removeCheckout e c s = (Inl NotFound, s)) \<and>
         (fst (removeCheckout e c s) = Inr () \<longrightarrow>
            c \<notin> set (map checkout (listCheckouts (snd (removeCheckout e c s))))) \<and>
         removeCheckout e [] s = (Inl ValidationError, s)"
proof (cases "select_by_name c s")
  case None
  then have no: "\<forall>r\<in>set s. checkout r \<noteq> c" by (simp add: select_by_name_None)
  with None assms show ?thesis by (auto simp: removeCheckout_def)
next
  case (Some row)
  from select_by_name_SomeD [OF Some] have "\<exists>r\<in>set s. checkout r = c" by blast
  then have ex: "\<not> (\<forall>r\<in>set s. checkout r \<noteq> c)" by blast
  have gone: "c \<notin> set (map checkout (listCheckouts (db_delete c s)))"
    using names_db_delete [of c s] by (simp only: checkout_listCheckouts) simp
  show ?thesis
  proof (cases "worktree_remove_ok e \<or> rm_rf_ok e")
    case True
    with Some assms have "removeCheckout e c s = (Inr (), db_delete c s)"
      by (auto simp: removeCheckout_def)
    with ex gone True show ?thesis by (simp add: db_delete_def removeCheckout_def)
  next
    case False
    with Some assms have "removeCheckout e c s = (Inl TeardownFailed, s)"
      by (simp add: removeCheckout_def)
    with ex False show ?thesis by (simp add: removeCheckout_def)
  qed
qed

theorem remove_behaviour_witness:
  "''checkout-2'' \<noteq> [] \<and>
   (\<exists>r\<in>set [ex_free ''checkout-1'' ''repo'', ex_locked ''checkout-2'' ''repo''].
      checkout r = ''checkout-2'') \<and> (worktree_remove_ok ex_env \<or> rm_rf_ok ex_env) \<and>
   removeCheckout ex_env ''checkout-2'' [ex_free ''checkout-1'' ''repo'', ex_locked ''checkout-2'' ''repo''] =
     (Inr (), [ex_free ''checkout-1'' ''repo'']) \<and>
   ''checkout-2'' \<notin> set (map checkout (listCheckouts [ex_free ''checkout-1'' ''repo''])) \<and>
   removeCheckout ex_env ''checkout-3'' [ex_free ''checkout-1'' ''repo'', ex_locked ''checkout-2'' ''repo''] =
     (Inl NotFound, [ex_free ''checkout-1'' ''repo'', ex_locked ''checkout-2'' ''repo''])"
proof -
  have l: "\<exists>r\<in>set [ex_free ''checkout-1'' ''repo'', ex_locked ''checkout-2'' ''repo''].
      checkout r = ''checkout-2''"
    by (simp add: ex_locked_def)
  have w: "worktree_remove_ok ex_env \<or> rm_rf_ok ex_env"
    by (simp add: ex_env_def)
  have n: "\<forall>r\<in>set [ex_free ''checkout-1'' ''repo'', ex_locked ''checkout-2'' ''repo''].
      checkout r \<noteq> ''checkout-3''"
    by (simp add: ex_free_def ex_locked_def)
  have u: "filter (\<lambda>r. checkout r \<noteq> ''checkout-2'')
             [ex_free ''checkout-1'' ''repo'', ex_locked ''checkout-2'' ''repo''] =
           [ex_free ''checkout-1'' ''repo'']"
    by (simp add: ex_free_def ex_locked_def)
  have ne: "''checkout-2'' \<noteq> []" "''checkout-3'' \<noteq> []" by simp_all
  note t2 = remove_behaviour [OF ne(1), of "[ex_free ''checkout-1'' ''repo'', ex_locked ''checkout-2'' ''repo'']" ex_env]
  from t2 l w have "removeCheckout ex_env ''checkout-2'' [ex_free ''checkout-1'' ''repo'', ex_locked ''checkout-2'' ''repo''] =
     (Inr (), filter (\<lambda>r. checkout r \<noteq> ''checkout-2'')
             [ex_free ''checkout-1'' ''repo'', ex_locked ''checkout-2'' ''repo''])"
    by blast
  then have 1: "removeCheckout ex_env ''checkout-2'' [ex_free ''checkout-1'' ''repo'', ex_locked ''checkout-2'' ''repo''] =
     (Inr (), [ex_free ''checkout-1'' ''repo''])"
    by (simp only: u)
  then have "fst (removeCheckout ex_env ''checkout-2''
       [ex_free ''checkout-1'' ''repo'', ex_locked ''checkout-2'' ''repo'']) = Inr ()"
    by (simp only: fst_conv)
  with t2 have "''checkout-2'' \<notin> set (map checkout (listCheckouts (snd (removeCheckout ex_env ''checkout-2''
       [ex_free ''checkout-1'' ''repo'', ex_locked ''checkout-2'' ''repo'']))))"
    by blast
  then have 2: "''checkout-2'' \<notin> set (map checkout (listCheckouts [ex_free ''checkout-1'' ''repo'']))"
    by (simp only: 1 snd_conv simp_thms)
  note t3 = remove_behaviour [OF ne(2), of "[ex_free ''checkout-1'' ''repo'', ex_locked ''checkout-2'' ''repo'']" ex_env]
  from t3 n
  have 3: "removeCheckout ex_env ''checkout-3'' [ex_free ''checkout-1'' ''repo'', ex_locked ''checkout-2'' ''repo''] =
     (Inl NotFound, [ex_free ''checkout-1'' ''repo'', ex_locked ''checkout-2'' ''repo''])"
    by blast
  show ?thesis using ne(1) l w 1 2 3 by (intro conjI) assumption+
qed

text \<open>
  The claim C7 as it is written fails at the empty name, as C6 does.
\<close>

theorem remove_counterexample:
  "removeCheckout ex_env '''' [] = (Inl ValidationError, []) \<and>
   fst (removeCheckout ex_env '''' []) \<noteq> Inl NotFound"
  by (simp add: removeCheckout_def)

section \<open>The next slot number\<close>


lemma show_int_nat: "show_int (int n) = show_nat n"
  by (simp add: show_int_def)

lemma new_name_is_slot_name:
  "is_slot_name (''checkout-'' @ show_nat n)" "slot_number (''checkout-'' @ show_nat n) = n"
  by (simp_all add: is_slot_name_def slot_number_def show_nat_nonempty show_nat_all_dec
      dec_value_show_nat)

lemma name_nums_slot_names:
  "names_ok s \<Longrightarrow> name_nums s = map (\<lambda>r. int (slot_number (checkout r))) s"
  by (induction s) (simp_all add: names_ok_def name_nums_def parse_slot_name)

lemma Max_int_image:
  assumes "finite A" and "A \<noteq> {}"
  shows "Max (int ` A) = int (Max A)"
  using mono_Max_commute [of int A] assms by (simp add: mono_def)

lemma nextNum_slot_names:
  assumes "names_ok s"
  shows "nextNum s = int (next_slot_number s)"
proof (cases s)
  case Nil
  then show ?thesis by (simp add: nextNum_def name_nums_def next_slot_number_def)
next
  case (Cons r rs)
  let ?f = "\<lambda>r. int (slot_number (checkout r))"
  from assms Cons have "name_nums s = ?f r # map ?f rs"
    by (simp add: name_nums_slot_names)
  then have "nextNum s = fold max (map ?f rs) (?f r) + 1"
    by (simp add: nextNum_def)
  also have "fold max (map ?f rs) (?f r) = Max (set (?f r # map ?f rs))"
    by (simp only: Max.set_eq_fold)
  also have "set (?f r # map ?f rs) = int ` set (map (\<lambda>r. slot_number (checkout r)) s)"
    using Cons by (simp add: image_image)
  also have "Max \<dots> = int (Max (set (map (\<lambda>r. slot_number (checkout r)) s)))"
    using Cons by (intro Max_int_image) simp_all
  finally show ?thesis using Cons by (simp add: next_slot_number_def)
qed

lemma next_slot_number_greater:
  assumes "r \<in> set s"
  shows "slot_number (checkout r) < next_slot_number s"
proof -
  from assms have "slot_number (checkout r) \<le> Max (set (map (\<lambda>r. slot_number (checkout r)) s))"
    by (intro Max_ge) auto
  moreover from assms have "s \<noteq> []" by auto
  ultimately show ?thesis by (simp only: next_slot_number_def if_False)
qed



text \<open>
  The scan of lines 124 to 126 is more lenient than the pattern: it deletes the
  first \<^verbatim>\<open>checkout-\<close> wherever it stands and lets \<^verbatim>\<open>parseInt\<close> read what is
  left, so a foreign name such as \<^verbatim>\<open>7\<close> or \<^verbatim>\<open>checkout-7abc\<close> counts as 7. The
  pool itself never writes such a name.
\<close>

lemma foreign_names_are_counted:
  "nextNum [ex_free ''7'' ''repo''] = 8" "nextNum [ex_free ''checkout-7abc'' ''repo''] = 8"
  by code_simp+




section \<open>Reuse of a free slot\<close>












section \<open>The tables the pool can reach\<close>

lemma names_ok_iff: "names_ok s \<longleftrightarrow> list_all is_slot_name (map checkout s)"
  by (simp add: names_ok_def list_all_iff)

lemma names_ok_db_lock: "names_ok s \<Longrightarrow> names_ok (db_lock p t c s)"
  by (simp only: names_ok_iff checkout_db_lock)

lemma names_ok_db_unlock: "names_ok s \<Longrightarrow> names_ok (db_unlock c s)"
  by (simp only: names_ok_iff checkout_db_unlock)

lemma names_ok_db_delete: "names_ok s \<Longrightarrow> names_ok (db_delete c s)"
  by (simp add: names_ok_def db_delete_def list_all_iff)

lemma acquire_names_ok:
  assumes "names_ok s"
  shows "names_ok (snd (acquireCheckout e a m s))"
proof (cases rule: acquireCheckout_cases [of e a m s])
  case (failed err)
  with assms show ?thesis by simp
next
  case (reuse rp row)
  with assms show ?thesis by (simp add: names_ok_db_lock)
next
  case (new rp c)
  from new(3) assms have "c = ''checkout-'' @ show_nat (next_slot_number s)"
    by (simp add: nextNum_slot_names show_int_nat)
  then have "is_slot_name c" by (simp only: new_name_is_slot_name)
  with new(7) assms show ?thesis by (simp add: names_ok_def)
qed

lemma exec_op_pool_ok:
  assumes "pk_unique s" and "names_ok s"
  shows "pk_unique (exec_op x s) \<and> names_ok (exec_op x s)"
proof (cases x)
  case (Acquire e a m)
  with assms show ?thesis by (simp add: acquire_pk_unique acquire_names_ok)
next
  case (Release c)
  with assms show ?thesis
    by (simp add: release_pk_unique)
      (simp add: releaseCheckout_def names_ok_db_unlock split: option.splits)
next
  case (Remove e c)
  with assms show ?thesis
    by (simp add: removeCheckout_def pk_unique_db_delete names_ok_db_delete split: option.splits)
qed

lemma exec_pool_ok:
  assumes "pk_unique s" and "names_ok s"
  shows "pk_unique (exec ops s) \<and> names_ok (exec ops s)"
  using assms
proof (induction ops arbitrary: s)
  case Nil
  then show ?case by (simp add: exec_def)
next
  case (Cons x ops)
  from exec_op_pool_ok [OF Cons.prems, of x] Cons.IH [of "exec_op x s"]
  show ?case by (simp add: exec_def)
qed

lemma reachable_pool_ok: "pk_unique (exec ops []) \<and> names_ok (exec ops [])"
  by (rule exec_pool_ok) (simp_all add: pk_unique_def names_ok_def)

section \<open>Names after removal\<close>

text \<open>
  C9, as the code has it. After any sequence of acquire, release and remove
  operations on the empty pool, an acquire that succeeds returns a slot name
  that either is in the table (a free row, reused) or is new, and then its
  number is one more than the greatest number in the table, above the number of
  every row. So a name that was removed is not assigned again while a row with
  that number or a higher one exists; the table keeps no memory of removed rows,
  and once the rows with the highest numbers are removed their names are
  assigned again.
\<close>

theorem new_name_exceeds_existing:
  assumes "acquireCheckout e repoArg m (exec ops []) = (Inr res, s')"
  shows "is_slot_name (id_res res) \<and>
         (id_res res \<in> names (exec ops []) \<or>
          slot_number (id_res res) = next_slot_number (exec ops []) \<and>
          (\<forall>r\<in>set (exec ops []). slot_number (checkout r) < slot_number (id_res res)))"
proof -
  let ?s = "exec ops []"
  from reachable_pool_ok [of ops] have ok: "names_ok ?s" by simp
  show ?thesis
  proof (cases rule: acquireCheckout_cases [of e repoArg m ?s])
    case (failed err)
    with assms show ?thesis by simp
  next
    case (reuse rp row)
    with assms have c: "id_res res = checkout row" by auto
    from select_free_SomeD [OF reuse(3)] have "row \<in> set ?s" by simp
    with ok c show ?thesis by (auto simp: names_def names_ok_def list_all_iff)
  next
    case (new rp c)
    with assms have c: "id_res res = c" by auto
    from new(3) ok have "c = ''checkout-'' @ show_nat (next_slot_number ?s)"
      by (simp add: nextNum_slot_names show_int_nat)
    then have "is_slot_name c" "slot_number c = next_slot_number ?s"
      by (simp_all only: new_name_is_slot_name)
    with c next_slot_number_greater [of _ ?s] show ?thesis by simp
  qed
qed

theorem new_name_exceeds_existing_witness:
  "acquireCheckout ex_env (Some ''repo'') None
      (exec [Acquire ex_env (Some ''repo'') None, Acquire ex_env (Some ''repo'') None,
             Remove ex_env ''checkout-1''] []) =
     (Inr \<lparr>id_res = ''checkout-3'', directory = ''/home/u/.gitproc_pool/checkout-3''\<rparr>,
      [ex_locked ''checkout-2'' ''repo'', ex_locked ''checkout-3'' ''repo'']) \<and>
   is_slot_name ''checkout-3'' \<and>
   (''checkout-3'' \<in> names (exec [Acquire ex_env (Some ''repo'') None, Acquire ex_env (Some ''repo'') None,
             Remove ex_env ''checkout-1''] []) \<or>
    slot_number ''checkout-3'' = next_slot_number (exec [Acquire ex_env (Some ''repo'') None,
             Acquire ex_env (Some ''repo'') None, Remove ex_env ''checkout-1''] []) \<and>
    (\<forall>r\<in>set (exec [Acquire ex_env (Some ''repo'') None, Acquire ex_env (Some ''repo'') None,
             Remove ex_env ''checkout-1''] []). slot_number (checkout r) < slot_number ''checkout-3''))"
proof -
  have a: "acquireCheckout ex_env (Some ''repo'') None
      (exec [Acquire ex_env (Some ''repo'') None, Acquire ex_env (Some ''repo'') None,
             Remove ex_env ''checkout-1''] []) =
     (Inr \<lparr>id_res = ''checkout-3'', directory = ''/home/u/.gitproc_pool/checkout-3''\<rparr>,
      [ex_locked ''checkout-2'' ''repo'', ex_locked ''checkout-3'' ''repo''])"
    by code_simp
  from new_name_exceeds_existing [OF a] a show ?thesis by simp
qed

text \<open>
  The claim C9 as it is written fails on the empty pool: acquire returns
  \<^verbatim>\<open>checkout-1\<close>, remove deletes it, and the next acquire, here for another
  repository, returns \<^verbatim>\<open>checkout-1\<close> again.
\<close>

theorem removed_name_counterexample:
  "acquireCheckout ex_env (Some ''repo'') None [] =
     (Inr \<lparr>id_res = ''checkout-1'', directory = ''/home/u/.gitproc_pool/checkout-1''\<rparr>,
      [ex_locked ''checkout-1'' ''repo'']) \<and>
   removeCheckout ex_env ''checkout-1'' [ex_locked ''checkout-1'' ''repo''] = (Inr (), []) \<and>
   acquireCheckout ex_env (Some ''other'') None [] =
     (Inr \<lparr>id_res = ''checkout-1'', directory = ''/home/u/.gitproc_pool/checkout-1''\<rparr>,
      [ex_locked ''checkout-1'' ''other''])"
  by code_simp

end
